theory Spec2Isabelle
  imports Main
begin

section \<open>Data model\<close>

text \<open>
  The request, as \<^verbatim>\<open>encoding/json\<close> decodes it into \<^verbatim>\<open>ScrapeRequest\<close>
  and \<^verbatim>\<open>ScrapeItem\<close> (gluestick.go, lines 19-31). A field definition has the static type
  \<^verbatim>\<open>interface{}\<close>: the decoder puts a string, a \<^verbatim>\<open>map[string]interface{}\<close>, or one
  of the other JSON values there (a number, a boolean, an array, null).

  A Go map is written as the list of its entries in the order in which \<^verbatim>\<open>range\<close> visits
  them. The keys of a map are distinct; the order is not fixed by the language, so nothing
  below may depend on one particular order unless it says so.
\<close>

datatype JSONOther = JNumber | JBool | JArray | JNull

datatype Field =
    FString string
  | FMap "(string \<times> Field) list"
  | FOther JSONOther

record ScrapeItem =
  Selector :: string
  Fields :: "(string \<times> Field) list"

record ScrapeRequest =
  Url :: string
  Items :: "(string \<times> ScrapeItem) list"

text \<open>
  The result tree. Every container of results is a \<^verbatim>\<open>map[string]interface{}\<close>; the
  values the program puts in are strings, \<^verbatim>\<open>[]interface{}\<close> slices and nested maps.
\<close>

datatype Value =
    is_Scalar: Scalar string
  | is_List: List "Value list"
  | is_Object: Object "string \<Rightarrow> Value option"

type_synonym Container = "string \<Rightarrow> Value option"

text \<open>
  What the program writes with \<^verbatim>\<open>log.Printf\<close> and \<^verbatim>\<open>log.Println\<close>, one entry per
  call. The schema error carries the type name that \<^verbatim>\<open>reflect.TypeOf\<close> prints.
\<close>

datatype LogEntry =
    Scraping
  | Finished
  | SomethingWentWrong string
  | ExpectedStringOrMap string
  | FailedToMarshal string

type_synonym Log = "LogEntry list"

fun TypeOf :: "JSONOther \<Rightarrow> string" where
  "TypeOf JNumber = ''float64''"
| "TypeOf JBool = ''bool''"
| "TypeOf JArray = ''[]interface {}''"
| "TypeOf JNull = ''%!s(<nil>)''"


section \<open>The collaborators\<close>

subsection \<open>Strings (Go standard library)\<close>

text \<open>
  A Go string is a sequence of bytes, as \<^typ>\<open>string\<close> is. \<^verbatim>\<open>strings.LastIndex(s, substr)\<close>
  is the byte index of the last occurrence of \<^verbatim>\<open>substr\<close> in \<^verbatim>\<open>s\<close>, or -1.
\<close>

definition LastIndex :: "string \<Rightarrow> string \<Rightarrow> int" where
  "LastIndex s substr =
     (case filter (\<lambda>i. take (length substr) (drop i s) = substr) (rev [0..<Suc (length s)]) of
        [] \<Rightarrow> - 1
      | i # _ \<Rightarrow> int i)"

text \<open>
  \<^verbatim>\<open>strings.TrimSpace\<close> removes the leading and the trailing white space, as Unicode
  defines it: the six ASCII characters, and the UTF-8 encodings of U+0085, U+00A0, U+1680,
  U+2000 to U+200A, U+2028, U+2029, U+202F, U+205F and U+3000.
\<close>

definition white_space :: "string list" where
  "white_space =
     [[CHR 0x09], [CHR 0x0A], [CHR 0x0B], [CHR 0x0C], [CHR 0x0D], [CHR 0x20],
      [CHR 0xC2, CHR 0x85], [CHR 0xC2, CHR 0xA0], [CHR 0xE1, CHR 0x9A, CHR 0x80],
      [CHR 0xE2, CHR 0x80, CHR 0x80], [CHR 0xE2, CHR 0x80, CHR 0x81],
      [CHR 0xE2, CHR 0x80, CHR 0x82], [CHR 0xE2, CHR 0x80, CHR 0x83],
      [CHR 0xE2, CHR 0x80, CHR 0x84], [CHR 0xE2, CHR 0x80, CHR 0x85],
      [CHR 0xE2, CHR 0x80, CHR 0x86], [CHR 0xE2, CHR 0x80, CHR 0x87],
      [CHR 0xE2, CHR 0x80, CHR 0x88], [CHR 0xE2, CHR 0x80, CHR 0x89],
      [CHR 0xE2, CHR 0x80, CHR 0x8A], [CHR 0xE2, CHR 0x80, CHR 0xA8],
      [CHR 0xE2, CHR 0x80, CHR 0xA9], [CHR 0xE2, CHR 0x80, CHR 0xAF],
      [CHR 0xE2, CHR 0x81, CHR 0x9F], [CHR 0xE3, CHR 0x80, CHR 0x80]]"

text \<open>
  When \<open>s\<close> starts with one of the white space characters of \<open>ws\<close>: the number of
  bytes of that character after its first byte.
\<close>

definition leading_space :: "string list \<Rightarrow> string \<Rightarrow> nat option" where
  "leading_space ws s =
     (case filter (\<lambda>w. w \<noteq> [] \<and> take (length w) s = w) ws of
        [] \<Rightarrow> None
      | w # _ \<Rightarrow> Some (length w - 1))"

fun TrimLeft :: "string list \<Rightarrow> string \<Rightarrow> string" where
  "TrimLeft ws [] = []"
| "TrimLeft ws (c # s) =
     (case leading_space ws (c # s) of
        None \<Rightarrow> c # s
      | Some n \<Rightarrow> TrimLeft ws (drop n s))"

definition TrimSpace :: "string \<Rightarrow> string" where
  "TrimSpace s = rev (TrimLeft (map rev white_space) (rev (TrimLeft white_space s)))"

subsection \<open>The document (colly, goquery)\<close>

text \<open>
  The scraping library is not part of the repository. An element it hands to a callback is
  taken with what the program reads of it: its text, its attributes in document order, and
  for every selector the descendants that match it, in document order (what goquery's
  \<^verbatim>\<open>Find\<close> answers; selector syntax and matching stay the library's). The document itself
  is the element at its root.

  The four methods are colly's: \<^verbatim>\<open>Attr\<close> is the value of the first attribute with
  that key and the empty string when there is none; \<^verbatim>\<open>ChildText\<close> is the trimmed
  concatenation of the texts of the matching descendants; \<^verbatim>\<open>ChildAttrs\<close> collects the
  trimmed attribute values of the matching descendants that have the attribute;
  \<^verbatim>\<open>ForEach\<close> runs a callback on each matching descendant.
\<close>

datatype HTMLElement =
  HTMLElement (Text: string) (attributes: "(string \<times> string) list")
    (DOM_Find: "string \<Rightarrow> HTMLElement list")

definition Attr :: "HTMLElement \<Rightarrow> string \<Rightarrow> string" where
  "Attr h k = (case map_of (attributes h) k of Some v \<Rightarrow> v | None \<Rightarrow> [])"

definition ChildText :: "HTMLElement \<Rightarrow> string \<Rightarrow> string" where
  "ChildText h goquerySelector = TrimSpace (concat (map Text (DOM_Find h goquerySelector)))"

definition ChildAttrs :: "HTMLElement \<Rightarrow> string \<Rightarrow> string \<Rightarrow> string list" where
  "ChildAttrs h goquerySelector attrName =
     concat (map (\<lambda>s. case map_of (attributes s) attrName of
                         Some attr \<Rightarrow> [TrimSpace attr]
                       | None \<Rightarrow> [])
                 (DOM_Find h goquerySelector))"

definition ForEach :: "HTMLElement \<Rightarrow> string \<Rightarrow> (HTMLElement \<Rightarrow> 's \<Rightarrow> 's) \<Rightarrow> 's \<Rightarrow> 's" where
  "ForEach h goquerySelector callback st = fold callback (DOM_Find h goquerySelector) st"


section \<open>The program (gluestick.go)\<close>

subsection \<open>accumValue\<close>

text \<open>
  gluestick.go, lines 131-143. The map is updated in place; the model returns the new map.
  The type assertion \<^verbatim>\<open>prev.([]interface{})\<close> succeeds exactly on a slice.
\<close>

definition accumValue :: "Container \<Rightarrow> string \<Rightarrow> Value \<Rightarrow> Container" where
  "accumValue outMap key v =
     (case outMap key of
        Some prev \<Rightarrow>
          (case prev of
             List multi \<Rightarrow> outMap(key \<mapsto> List (multi @ [v]))
           | _ \<Rightarrow> outMap(key \<mapsto> List [prev, v]))
      | None \<Rightarrow> outMap(key \<mapsto> v))"

text \<open>A sequence of calls of accumValue on one container, each with its key and value.\<close>

definition accumulate :: "Container \<Rightarrow> (string \<times> Value) list \<Rightarrow> Container" where
  "accumulate outMap calls = fold (\<lambda>(key, v) m. accumValue m key v) calls outMap"

text \<open>
  What a key holds after the values \<open>vs\<close> were accumulated under it, as the
  specification words it: nothing, the value itself, or the list of all of them.
\<close>

fun promoted :: "Value list \<Rightarrow> Value option" where
  "promoted [] = None"
| "promoted [v] = Some v"
| "promoted vs = Some (List vs)"

subsection \<open>getSelectorAndAttr\<close>

text \<open>gluestick.go, lines 145-154.\<close>

definition getSelectorAndAttr :: "string \<Rightarrow> string \<times> string" where
  "getSelectorAndAttr input =
     (let idx = LastIndex input ''|'' in
      if idx = - 1 then (input, [])
      else (take (nat idx) input, drop (nat (idx + 1)) input))"

subsection \<open>parseFields\<close>

text \<open>
  gluestick.go, lines 97-125. \<open>parseFields_loop\<close> is the \<^verbatim>\<open>for ... range fields\<close>
  loop over the entries still to visit, with the map \<^verbatim>\<open>parsed\<close> built so far and the
  log lines written so far; \<open>parseFields\<close> starts it on the fresh map.
\<close>

fun parseFields_loop ::
  "(string \<times> Field) list \<Rightarrow> HTMLElement \<Rightarrow> Container \<times> Log \<Rightarrow> Container \<times> Log" where
  "parseFields_loop [] e st = st"
| "parseFields_loop ((fieldName, field) # rest) e (parsed, lg) =
     parseFields_loop rest e
       (case field of
          FString fieldSelector \<Rightarrow>
            (let (sel, attr) = getSelectorAndAttr fieldSelector in
             if length sel = 0 then
               (if length attr = 0 then (accumValue parsed fieldName (Scalar (Text e)), lg)
                else (accumValue parsed fieldName (Scalar (Attr e attr)), lg))
             else
               (if length attr = 0 then
                  (accumValue parsed fieldName (Scalar (ChildText e sel)), lg)
                else
                  (fold (\<lambda>val p. accumValue p fieldName (Scalar val)) (ChildAttrs e sel attr)
                     parsed, lg)))
        | FMap nestedFields \<Rightarrow>
            (let (val, lg') = parseFields_loop nestedFields e (Map.empty, []) in
             (accumValue parsed fieldName (Object val), lg @ lg'))
        | FOther t \<Rightarrow> (parsed, lg @ [ExpectedStringOrMap (TypeOf t)]))"

definition parseFields :: "(string \<times> Field) list \<Rightarrow> HTMLElement \<Rightarrow> Container \<times> Log" where
  "parseFields flds e = parseFields_loop flds e (Map.empty, [])"

subsection \<open>validate\<close>

text \<open>
  gluestick.go, lines 156-178. \<^verbatim>\<open>url.Parse\<close> belongs to Go's standard library; validate
  takes it as the parameter \<open>url_Parse\<close>, which answers the error, if any.
\<close>

datatype Error =
    RequestWasNil
  | UrlError string
  | ItemsWasEmpty
  | SelectorWasEmpty string
  | FieldsWasEmpty string
  | DecodeError string
  | MarshalError string

fun validate_items :: "(string \<times> ScrapeItem) list \<Rightarrow> Error option" where
  "validate_items [] = None"
| "validate_items ((itemK, itemV) # rest) =
     (if length (Selector itemV) = 0 then Some (SelectorWasEmpty itemK)
      else if length (Fields itemV) = 0 then Some (FieldsWasEmpty itemK)
      else validate_items rest)"

definition validate :: "(string \<Rightarrow> string option) \<Rightarrow> ScrapeRequest option \<Rightarrow> Error option" where
  "validate url_Parse s =
     (case s of
        None \<Rightarrow> Some RequestWasNil
      | Some req \<Rightarrow>
          (case url_Parse (Url req) of
             Some uErr \<Rightarrow> Some (UrlError uErr)
           | None \<Rightarrow>
               if length (Items req) = 0 then Some ItemsWasEmpty
               else validate_items (Items req)))"

text \<open>
  A stand-in for \<^verbatim>\<open>url.Parse\<close> in concrete runs. It keeps the library's first test, the
  one for control bytes, and no other. The runs below use it at the empty string and at
  \<^verbatim>\<open>http://x\<close>, where the library returns a URL and no error, as the stand-in does.
\<close>

definition url_Parse_ctl :: "string \<Rightarrow> string option" where
  "url_Parse_ctl rawURL =
     (if list_ex (\<lambda>b. of_char b < (0x20 :: nat) \<or> of_char b = (0x7f :: nat)) rawURL
      then Some ''net/url: invalid control character in URL''
      else None)"


subsection \<open>scrape\<close>

text \<open>
  A call ends in one of three ways: it returns, it panics, or it never returns.
\<close>

datatype 'a Outcome = Returns 'a | Panics | Hangs

text \<open>
  The collector's run, as the program sees it: whether the request callback was invoked;
  the HTML callbacks invoked, in order, each with the position of the callback among the
  registered ones and the element; and the terminal callbacks invoked after them, in order
  (none, one, or more). A collector answers a run for the URL it is asked to visit and the
  selectors registered with it. \<^verbatim>\<open>c.Visit\<close> is synchronous: when it returns, the run is
  over and no callback is invoked any more.
\<close>

datatype Terminal = OnScraped | OnError string

record Visit =
  requested :: bool
  fired :: "(nat \<times> HTMLElement) list"
  terminals :: "Terminal list"

type_synonym Collector = "string \<Rightarrow> string list \<Rightarrow> Visit"

text \<open>
  colly's own run. For the empty URL \<^verbatim>\<open>Visit\<close> returns the error
  \<^verbatim>\<open>Missing URL\<close> at once and invokes no callback at all. Otherwise the request
  callback runs; a failed fetch invokes no HTML callback and then the error callback; a
  fetched document is searched for each registered selector, in the order of registration,
  the callback runs on each match in document order, and then the scraped callback runs.
\<close>

definition colly_Visit :: "(string \<Rightarrow> string + HTMLElement) \<Rightarrow> Collector" where
  "colly_Visit fetch url sels =
     (if url = [] then \<lparr>requested = False, fired = [], terminals = []\<rparr>
      else
        (case fetch url of
           Inl err \<Rightarrow> \<lparr>requested = True, fired = [], terminals = [OnError err]\<rparr>
         | Inr doc \<Rightarrow>
             \<lparr>requested = True,
              fired = concat (map (\<lambda>i. map (Pair i) (DOM_Find doc (sels ! i))) [0..<length sels]),
              terminals = [OnScraped]\<rparr>))"

text \<open>
  gluestick.go, lines 66-72. A registered callback is a selector and a closure; the closure
  is its code (\<open>OnHTML_callback\<close>) and the variables it reads when it runs,
  \<^verbatim>\<open>itemName\<close> and \<^verbatim>\<open>item\<close>.

  The closure is written inside the \<^verbatim>\<open>range\<close> loop and uses the loop's variables
  directly. In the Go this repository was written for (before 1.22) a loop has one
  \<^verbatim>\<open>itemName\<close> and one \<^verbatim>\<open>item\<close> for all its iterations, and the closures run
  during \<^verbatim>\<open>c.Visit\<close>, after the loop: each of them reads the entry the loop visited
  last. The selector is an argument of \<^verbatim>\<open>c.OnHTML\<close> and is read at registration. The
  command-line variant states this in a comment and passes both variables through a
  function call (see \<open>register_OnHTML_cli\<close>).
\<close>

record Handler =
  hSelector :: string
  hItemName :: string
  hItem :: ScrapeItem

definition register_OnHTML :: "(string \<times> ScrapeItem) list \<Rightarrow> Handler list" where
  "register_OnHTML its =
     map (\<lambda>(itemName, item).
            \<lparr>hSelector = Selector item, hItemName = fst (last its), hItem = snd (last its)\<rparr>)
         its"

definition OnHTML_callback :: "Handler \<Rightarrow> HTMLElement \<Rightarrow> Container \<times> Log \<Rightarrow> Container \<times> Log" where
  "OnHTML_callback h e st =
     (case st of (results, lg) \<Rightarrow>
        (let (parsed, lg') = parseFields (Fields (hItem h)) e in
         (accumValue results (hItemName h) (Object parsed), lg @ lg')))"

definition handleOnHTML ::
  "(Handler \<Rightarrow> HTMLElement \<Rightarrow> Container \<times> Log \<Rightarrow> Container \<times> Log) \<Rightarrow> Handler list \<Rightarrow>
   (nat \<times> HTMLElement) list \<Rightarrow> Container \<times> Log \<Rightarrow> Container \<times> Log" where
  "handleOnHTML callback hs calls st =
     fold (\<lambda>(i, e) st. if i < length hs then callback (hs ! i) e st else st) calls st"

text \<open>
  gluestick.go, lines 74-86: the wait. \<^verbatim>\<open>sync.WaitGroup\<close> is a counter:
  \<^verbatim>\<open>Add(1)\<close> sets it to one before the visit, \<^verbatim>\<open>Done\<close> takes one off and panics
  when the counter becomes negative, \<^verbatim>\<open>Wait\<close> returns when the counter is zero. Both
  terminal callbacks write their log line and call \<^verbatim>\<open>Done\<close>. \<^verbatim>\<open>Wait\<close> is called
  after the visit has returned; a counter that is not zero then stays so, and the call never
  returns.
\<close>

definition wg_Done :: "int \<Rightarrow> int option" where
  "wg_Done wg = (if wg - 1 < 0 then None else Some (wg - 1))"

fun terminal_callbacks :: "Terminal list \<Rightarrow> Log \<times> int \<Rightarrow> (Log \<times> int) option" where
  "terminal_callbacks [] st = Some st"
| "terminal_callbacks (t # ts) (lg, wg) =
     (case wg_Done wg of
        None \<Rightarrow> None
      | Some wg' \<Rightarrow>
          terminal_callbacks ts
            (lg @ [case t of OnScraped \<Rightarrow> Finished | OnError err \<Rightarrow> SomethingWentWrong err],
             wg'))"

definition scrape_wait :: "Terminal list \<Rightarrow> Log \<Rightarrow> Log Outcome" where
  "scrape_wait ts lg =
     (case terminal_callbacks ts (lg, 1) of
        None \<Rightarrow> Panics
      | Some (lg', wg) \<Rightarrow> if wg = 0 then Returns lg' else Hangs)"

text \<open>
  gluestick.go, lines 59-86: the callbacks are registered, the collector visits the URL, and
  the handler waits. When the wait returns, the result is the map \<^verbatim>\<open>results\<close> and the
  log.
\<close>

definition scrape_results :: "Collector \<Rightarrow> ScrapeRequest \<Rightarrow> (Container \<times> Log) Outcome" where
  "scrape_results visit scrapeReq =
     (let hs = register_OnHTML (Items scrapeReq);
          v = visit (Url scrapeReq) (map hSelector hs);
          (results, lg) = handleOnHTML OnHTML_callback hs (fired v)
                            (Map.empty, if requested v then [Scraping] else [])
      in case scrape_wait (terminals v) lg of
           Returns lg' \<Rightarrow> Returns (results, lg')
         | Panics \<Rightarrow> Panics
         | Hangs \<Rightarrow> Hangs)"

text \<open>
  src/server/gluestick.go, lines 88-96: the earliest variant of the wait registers the
  scraped callback only, so an error of the collector reaches no callback.
\<close>

fun terminal_callbacks_server :: "Terminal list \<Rightarrow> int \<Rightarrow> int option" where
  "terminal_callbacks_server [] wg = Some wg"
| "terminal_callbacks_server (OnScraped # ts) wg =
     (case wg_Done wg of
        None \<Rightarrow> None
      | Some wg' \<Rightarrow> terminal_callbacks_server ts wg')"
| "terminal_callbacks_server (OnError err # ts) wg = terminal_callbacks_server ts wg"

definition scrape_wait_server :: "Terminal list \<Rightarrow> unit Outcome" where
  "scrape_wait_server ts =
     (case terminal_callbacks_server ts 1 of
        None \<Rightarrow> Panics
      | Some wg \<Rightarrow> if wg = 0 then Returns () else Hangs)"

text \<open>
  gluestick.go, lines 41-95: the handler of \<^verbatim>\<open>/scrape\<close>. The request comes with its method
  and with what the JSON decoder made of its body; when the handler returns, the response is
  the status and what was written. \<^verbatim>\<open>json.MarshalIndent\<close> is the standard library's and
  is a parameter.
\<close>

record HTTPRequest =
  Method :: string
  Decoded :: "string + ScrapeRequest"

datatype Written = OnlyPOSTAllowed | ErrorText Error | JSON string

record HTTPResponse =
  StatusCode :: nat
  Body :: Written

definition scrape ::
  "(string \<Rightarrow> string option) \<Rightarrow> Collector \<Rightarrow> (Container \<Rightarrow> string \<Rightarrow> string \<Rightarrow> string + string) \<Rightarrow>
   HTTPRequest \<Rightarrow> (HTTPResponse \<times> Log) Outcome" where
  "scrape url_Parse visit MarshalIndent r =
     (if Method r \<noteq> ''POST'' then Returns (\<lparr>StatusCode = 405, Body = OnlyPOSTAllowed\<rparr>, [])
      else
        (case Decoded r of
           Inl err \<Rightarrow> Returns (\<lparr>StatusCode = 400, Body = ErrorText (DecodeError err)\<rparr>, [])
         | Inr scrapeReq \<Rightarrow>
             (case validate url_Parse (Some scrapeReq) of
                Some err \<Rightarrow> Returns (\<lparr>StatusCode = 400, Body = ErrorText err\<rparr>, [])
              | None \<Rightarrow>
                  (case scrape_results visit scrapeReq of
                     Panics \<Rightarrow> Panics
                   | Hangs \<Rightarrow> Hangs
                   | Returns (results, lg) \<Rightarrow>
                       (case MarshalIndent results [] ''    '' of
                          Inr j \<Rightarrow> Returns (\<lparr>StatusCode = 200, Body = JSON j\<rparr>, lg)
                        | Inl err \<Rightarrow>
                            Returns (\<lparr>StatusCode = 500, Body = ErrorText (MarshalError err)\<rparr>,
                                     lg @ [FailedToMarshal err]))))))"


section \<open>The command-line variant (README.md, lines 147-349)\<close>

text \<open>
  The second program of the repository shares accumValue and validate with the first and
  differs in four places: getSelectorAndAttr trims both parts, parseFields walks the
  matching descendants with \<^verbatim>\<open>ForEach\<close> where the first calls \<^verbatim>\<open>ChildText\<close>, the
  callbacks are registered through a function call that copies the loop's variables, and
  the wait is a channel.
\<close>

definition getSelectorAndAttr_cli :: "string \<Rightarrow> string \<times> string" where
  "getSelectorAndAttr_cli input =
     (let idx = LastIndex input ''|'' in
      if idx = - 1 then (TrimSpace input, [])
      else (TrimSpace (take (nat idx) input), TrimSpace (drop (nat (idx + 1)) input)))"

fun parseFields_loop_cli ::
  "(string \<times> Field) list \<Rightarrow> HTMLElement \<Rightarrow> Container \<times> Log \<Rightarrow> Container \<times> Log" where
  "parseFields_loop_cli [] e st = st"
| "parseFields_loop_cli ((fieldName, field) # rest) e (parsed, lg) =
     parseFields_loop_cli rest e
       (case field of
          FString fieldSelector \<Rightarrow>
            (let (sel, attr) = getSelectorAndAttr_cli fieldSelector in
             if length sel = 0 then
               (if length attr = 0 then (accumValue parsed fieldName (Scalar (Text e)), lg)
                else (accumValue parsed fieldName (Scalar (Attr e attr)), lg))
             else
               (if length attr = 0 then
                  (ForEach e sel (\<lambda>child p. accumValue p fieldName (Scalar (Text child))) parsed,
                   lg)
                else
                  (fold (\<lambda>val p. accumValue p fieldName (Scalar val)) (ChildAttrs e sel attr)
                     parsed, lg)))
        | FMap nestedFields \<Rightarrow>
            (let (val, lg') = parseFields_loop_cli nestedFields e (Map.empty, []) in
             (accumValue parsed fieldName (Object val), lg @ lg'))
        | FOther t \<Rightarrow> (parsed, lg @ [ExpectedStringOrMap (TypeOf t)]))"

definition parseFields_cli :: "(string \<times> Field) list \<Rightarrow> HTMLElement \<Rightarrow> Container \<times> Log" where
  "parseFields_cli flds e = parseFields_loop_cli flds e (Map.empty, [])"

definition register_OnHTML_cli :: "(string \<times> ScrapeItem) list \<Rightarrow> Handler list" where
  "register_OnHTML_cli its =
     map (\<lambda>(itemName, item).
            \<lparr>hSelector = Selector item, hItemName = itemName, hItem = item\<rparr>)
         its"

definition OnHTML_callback_cli ::
  "Handler \<Rightarrow> HTMLElement \<Rightarrow> Container \<times> Log \<Rightarrow> Container \<times> Log" where
  "OnHTML_callback_cli h e st =
     (case st of (results, lg) \<Rightarrow>
        (let (parsed, lg') = parseFields_cli (Fields (hItem h)) e in
         (accumValue results (hItemName h) (Object parsed), lg @ lg')))"

text \<open>
  README.md, lines 250-265: the wait of the command-line variant is a channel of errors
  with room for one. The scraped callback closes it, the error callback sends the error,
  and after the visit the program receives from it. A channel is its buffer and whether it
  is closed. Sending on a closed channel and closing a closed channel panic; sending on a
  full channel and receiving from an empty open channel wait for another goroutine, and
  there is none; receiving from an empty closed channel gives no error.
\<close>

fun terminal_callbacks_cli ::
  "Terminal list \<Rightarrow> string list \<times> bool \<Rightarrow> (string list \<times> bool) Outcome" where
  "terminal_callbacks_cli [] ch = Returns ch"
| "terminal_callbacks_cli (OnScraped # ts) (buf, closed) =
     (if closed then Panics else terminal_callbacks_cli ts (buf, True))"
| "terminal_callbacks_cli (OnError err # ts) (buf, closed) =
     (if closed then Panics
      else if length buf < 1 then terminal_callbacks_cli ts (buf @ [err], closed)
      else Hangs)"

definition chan_receive :: "string list \<times> bool \<Rightarrow> string option Outcome" where
  "chan_receive ch =
     (case ch of (buf, closed) \<Rightarrow>
        (case buf of
           err # _ \<Rightarrow> Returns (Some err)
         | [] \<Rightarrow> if closed then Returns None else Hangs))"

definition scrape_wait_cli :: "Terminal list \<Rightarrow> string option Outcome" where
  "scrape_wait_cli ts =
     (case terminal_callbacks_cli ts ([], False) of
        Returns ch \<Rightarrow> chan_receive ch
      | Panics \<Rightarrow> Panics
      | Hangs \<Rightarrow> Hangs)"

text \<open>
  README.md, lines 230-266, without the verbose log: when the wait returns, the map
  \<^verbatim>\<open>results\<close> and the error received from the channel.
\<close>

definition scrape_cli :: "Collector \<Rightarrow> ScrapeRequest \<Rightarrow> (Container \<times> string option) Outcome" where
  "scrape_cli visit req =
     (let hs = register_OnHTML_cli (Items req);
          v = visit (Url req) (map hSelector hs);
          (results, lg) = handleOnHTML OnHTML_callback_cli hs (fired v) (Map.empty, [])
      in case scrape_wait_cli (terminals v) of
           Returns scrapeErr \<Rightarrow> Returns (results, scrapeErr)
         | Panics \<Rightarrow> Panics
         | Hangs \<Rightarrow> Hangs)"


section \<open>Notions for the statements\<close>

text \<open>
  The calls of accumValue that one pass over named entries makes: for each entry in turn,
  one call under the entry's name for each value the entry contributes.
\<close>

definition field_calls ::
  "('a \<Rightarrow> HTMLElement \<Rightarrow> Value list) \<Rightarrow> (string \<times> 'a) list \<Rightarrow> HTMLElement \<Rightarrow>
   (string \<times> Value) list" where
  "field_calls contrib flds e =
     concat (map (\<lambda>(fieldName, field). map (Pair fieldName) (contrib field e)) flds)"

text \<open>
  The values that one field contributes to the map of its element, read off the branches of
  parseFields, and the log lines it writes; first for gluestick.go, then for the
  command-line variant.
\<close>

definition contributions :: "Field \<Rightarrow> HTMLElement \<Rightarrow> Value list" where
  "contributions field e =
     (case field of
        FString fieldSelector \<Rightarrow>
          (let (sel, attr) = getSelectorAndAttr fieldSelector in
           if sel = [] then (if attr = [] then [Scalar (Text e)] else [Scalar (Attr e attr)])
           else (if attr = [] then [Scalar (ChildText e sel)]
                 else map Scalar (ChildAttrs e sel attr)))
      | FMap nestedFields \<Rightarrow> [Object (fst (parseFields nestedFields e))]
      | FOther t \<Rightarrow> [])"

definition field_log :: "Field \<Rightarrow> HTMLElement \<Rightarrow> Log" where
  "field_log field e =
     (case field of
        FString fieldSelector \<Rightarrow> []
      | FMap nestedFields \<Rightarrow> snd (parseFields nestedFields e)
      | FOther t \<Rightarrow> [ExpectedStringOrMap (TypeOf t)])"

definition contributions_cli :: "Field \<Rightarrow> HTMLElement \<Rightarrow> Value list" where
  "contributions_cli field e =
     (case field of
        FString fieldSelector \<Rightarrow>
          (let (sel, attr) = getSelectorAndAttr_cli fieldSelector in
           if sel = [] then (if attr = [] then [Scalar (Text e)] else [Scalar (Attr e attr)])
           else (if attr = [] then map (\<lambda>child. Scalar (Text child)) (DOM_Find e sel)
                 else map Scalar (ChildAttrs e sel attr)))
      | FMap nestedFields \<Rightarrow> [Object (fst (parseFields_cli nestedFields e))]
      | FOther t \<Rightarrow> [])"

definition field_log_cli :: "Field \<Rightarrow> HTMLElement \<Rightarrow> Log" where
  "field_log_cli field e =
     (case field of
        FString fieldSelector \<Rightarrow> []
      | FMap nestedFields \<Rightarrow> snd (parseFields_cli nestedFields e)
      | FOther t \<Rightarrow> [ExpectedStringOrMap (TypeOf t)])"

text \<open>
  The objects that one item contributes to the results when colly walks the document
  \<open>doc\<close>: one for each element that matches the item's selector, in document order.
\<close>

definition item_contributions ::
  "((string \<times> Field) list \<Rightarrow> HTMLElement \<Rightarrow> Container \<times> Log) \<Rightarrow> ScrapeItem \<Rightarrow> HTMLElement \<Rightarrow> Value list" where
  "item_contributions parse it doc =
     map (\<lambda>e. Object (fst (parse (Fields it) e))) (DOM_Find doc (Selector it))"


section \<open>Documents and requests for concrete runs\<close>

text \<open>
  An element without matching descendants; an element with two \<^verbatim>\<open>h3\<close> descendants; a
  document with one \<^verbatim>\<open>article\<close> and one \<^verbatim>\<open>aside\<close>; two items; a fetch that answers
  that document and one that fails; a run in which the collector invokes the error callback
  and then the scraped callback; and a stand-in for \<^verbatim>\<open>json.MarshalIndent\<close> that is
  only applied to the empty map, which the library writes as a pair of braces.
\<close>

definition leaf :: "string \<Rightarrow> (string \<times> string) list \<Rightarrow> HTMLElement" where
  "leaf txt attrs = HTMLElement txt attrs (\<lambda>sel. [])"

definition two_headings :: HTMLElement where
  "two_headings =
     HTMLElement ''FirstSecond'' []
       (\<lambda>sel. if sel = ''h3'' then [leaf ''First'' [], leaf ''Second'' []] else [])"

definition two_kinds :: HTMLElement where
  "two_kinds =
     HTMLElement ''AN'' []
       (\<lambda>sel. if sel = ''article'' then [leaf ''A'' []]
              else if sel = ''aside'' then [leaf ''N'' []] else [])"

definition articles_item :: ScrapeItem where
  "articles_item = \<lparr>Selector = ''article'', Fields = [(''title'', FString [])]\<rparr>"

definition notes_item :: ScrapeItem where
  "notes_item = \<lparr>Selector = ''aside'', Fields = [(''note'', FString [])]\<rparr>"

definition fetch_two_kinds :: "string \<Rightarrow> string + HTMLElement" where
  "fetch_two_kinds url = Inr two_kinds"


definition visit_error_then_scraped :: Collector where
  "visit_error_then_scraped url sels =
     \<lparr>requested = True, fired = [], terminals = [OnError ''EOF'', OnScraped]\<rparr>"

definition MarshalIndent_braces :: "Container \<Rightarrow> string \<Rightarrow> string \<Rightarrow> string + string" where
  "MarshalIndent_braces v prefix indent = Inr ''{}''"


section \<open>Accumulation: one value stays a scalar, more become a list\<close>

lemma accumValue_other_key: "k \<noteq> key \<Longrightarrow> accumValue m key v k = m k"
  by (simp add: accumValue_def split: option.split Value.split)

lemma accumValue_promoted:
  assumes "m key = promoted vs" and "\<forall>v\<in>set vs. \<not> is_List v"
  shows "accumValue m key v key = promoted (vs @ [v])"
proof (cases vs)
  case Nil
  with assms show ?thesis by (simp add: accumValue_def)
next
  case (Cons a rest)
  show ?thesis
  proof (cases rest)
    case Nil
    with Cons assms show ?thesis
      by (cases a) (simp_all add: accumValue_def)
  next
    case (Cons b rest')
    with \<open>vs = a # rest\<close> assms show ?thesis
      by (simp add: accumValue_def)
  qed
qed

lemma accumulate_promoted:
  assumes "m key = promoted vs0"
    and "\<forall>v\<in>set vs0. \<not> is_List v"
    and "\<forall>c\<in>set calls. fst c = key \<longrightarrow> \<not> is_List (snd c)"
  shows "accumulate m calls key = promoted (vs0 @ map snd (filter (\<lambda>c. fst c = key) calls))"
  using assms
proof (induction calls arbitrary: m vs0)
  case Nil
  then show ?case by (simp add: accumulate_def)
next
  case (Cons c calls)
  obtain k v where c: "c = (k, v)" by (cases c)
  have step: "accumulate m ((k, v) # calls) = accumulate (accumValue m k v) calls"
    by (simp add: accumulate_def)
  show ?case
  proof (cases "k = key")
    case True
    have "accumValue m k v key = promoted (vs0 @ [v])"
      using Cons.prems(1,2) True accumValue_promoted by blast
    moreover have "\<forall>x\<in>set (vs0 @ [v]). \<not> is_List x"
      using Cons.prems(2,3) True c by auto
    ultimately have "accumulate (accumValue m k v) calls key =
        promoted ((vs0 @ [v]) @ map snd (filter (\<lambda>c. fst c = key) calls))"
      using Cons.IH Cons.prems(3) by auto
    then show ?thesis using step by (simp add: c True)
  next
    case False
    have "accumValue m k v key = promoted vs0"
      using Cons.prems(1) False by (simp add: accumValue_other_key)
    then have "accumulate (accumValue m k v) calls key =
        promoted (vs0 @ map snd (filter (\<lambda>c. fst c = key) calls))"
      using Cons.IH Cons.prems(2,3) by auto
    then show ?thesis using False step by (simp add: c)
  qed
qed

lemma promoted_single_iff:
  assumes "vs \<noteq> []" and "\<forall>v\<in>set vs. \<not> is_List v"
  shows "(length vs = 1 \<longleftrightarrow> promoted vs = Some (hd vs)) \<and>
         (2 \<le> length vs \<longleftrightarrow> promoted vs = Some (List vs))"
proof (cases vs)
  case Nil
  with assms show ?thesis by simp
next
  case (Cons a rest)
  with assms have a: "\<not> is_List a" by simp
  show ?thesis
  proof (cases rest)
    case Nil
    with Cons a show ?thesis by (cases a) auto
  next
    case (Cons b rest')
    with \<open>vs = a # rest\<close> a show ?thesis by (cases a) auto
  qed
qed

text \<open>
  Claim C1. Take any container in which \<open>key\<close> is absent and any sequence of accumValue
  calls on it, calls for other keys among them. Let \<open>vs\<close> be the values of the calls
  for \<open>key\<close>, in call order, N of them with N at least 1, none of them itself a slice
  (the program accumulates strings and maps only). Afterwards the container holds under
  \<open>key\<close> the one value itself if and only if N = 1, and the list of the N values in call
  order if and only if N is 2 or more. The container is any
  \<^verbatim>\<open>map[string]interface{}\<close>: the map of one element's fields and the map of the
  results are both of this type and go through the same function.
\<close>

theorem accumValue_scalar_then_list:
  assumes "outMap key = None"
    and "vs = map snd (filter (\<lambda>c. fst c = key) calls)"
    and "vs \<noteq> []"
    and "\<forall>v\<in>set vs. \<not> is_List v"
  shows "(length vs = 1 \<longleftrightarrow> accumulate outMap calls key = Some (hd vs)) \<and>
         (2 \<le> length vs \<longleftrightarrow> accumulate outMap calls key = Some (List vs))"
proof -
  have "accumulate outMap calls key = promoted ([] @ vs)"
    unfolding assms(2)
    by (rule accumulate_promoted) (use assms in auto)
  then show ?thesis
    using promoted_single_iff [OF assms(3,4)] by simp
qed

theorem accumValue_scalar_then_list_witness:
  "accumulate Map.empty [(''title'', Scalar ''a'')] ''title'' = Some (Scalar ''a'') \<and>
   accumulate Map.empty
     [(''title'', Scalar ''a''), (''link'', Scalar ''x''), (''title'', Object Map.empty),
      (''title'', Scalar ''c'')] ''title''
     = Some (List [Scalar ''a'', Object Map.empty, Scalar ''c''])"
  using accumValue_scalar_then_list [of Map.empty "''title''" "[Scalar ''a'']"
      "[(''title'', Scalar ''a'')]"]
    accumValue_scalar_then_list [of Map.empty "''title''"
      "[Scalar ''a'', Object Map.empty, Scalar ''c'']"
      "[(''title'', Scalar ''a''), (''link'', Scalar ''x''), (''title'', Object Map.empty),
        (''title'', Scalar ''c'')]"]
  by simp


section \<open>The selector expression\<close>

lemma filter_rev_upt_none:
  "(\<forall>i<m. \<not> P i) \<Longrightarrow> filter P (rev [0..<m]) = []"
  by (simp add: filter_empty_conv)

lemma filter_rev_upt_last:
  "P j \<Longrightarrow> j < m \<Longrightarrow> (\<forall>i. j < i \<and> i < m \<longrightarrow> \<not> P i) \<Longrightarrow>
   \<exists>rest. filter P (rev [0..<m]) = j # rest"
proof (induction m)
  case 0
  then show ?case by simp
next
  case (Suc m)
  show ?case
  proof (cases "j = m")
    case True
    with Suc.prems show ?thesis by simp
  next
    case False
    with Suc.prems have "j < m" and "\<not> P m" by auto
    with Suc show ?thesis by simp
  qed
qed

lemma occurs_at_iff:
  "take (Suc 0) (drop i s) = [c] \<longleftrightarrow> i < length s \<and> s ! i = c"
proof (cases "i < length s")
  case True
  then have "drop i s = s ! i # drop (Suc i) s" by (simp add: Cons_nth_drop_Suc)
  then show ?thesis using True by simp
next
  case False
  then show ?thesis by simp
qed

lemma LastIndex_absent:
  assumes "c \<notin> set s"
  shows "LastIndex s [c] = - 1"
proof -
  have "\<forall>i<Suc (length s). \<not> (take (Suc 0) (drop i s) = [c])"
    using assms by (auto simp: occurs_at_iff)
  then have "filter (\<lambda>i. take (Suc 0) (drop i s) = [c]) (rev [0..<Suc (length s)]) = []"
    by (rule filter_rev_upt_none)
  then show ?thesis by (simp add: LastIndex_def)
qed

lemma LastIndex_last:
  assumes "c \<notin> set after"
  shows "LastIndex (before @ [c] @ after) [c] = int (length before)"
proof -
  let ?s = "before @ [c] @ after"
  let ?P = "\<lambda>i. take (Suc 0) (drop i ?s) = [c]"
  have here: "?P (length before)" by simp
  have later: "\<forall>i. length before < i \<and> i < Suc (length ?s) \<longrightarrow> \<not> ?P i"
  proof (intro allI impI)
    fix i assume i: "length before < i \<and> i < Suc (length ?s)"
    show "\<not> ?P i"
    proof
      assume "?P i"
      then have "i < length ?s" and "?s ! i = c"
        using occurs_at_iff [where c = c and i = i and s = ?s] by blast+
      moreover from i have "?s ! i = after ! (i - Suc (length before))"
        by (simp add: nth_append nth_Cons')
      moreover from i \<open>i < length ?s\<close> have "i - Suc (length before) < length after"
        by simp
      ultimately show False using assms nth_mem by metis
    qed
  qed
  obtain rest where "filter ?P (rev [0..<Suc (length ?s)]) = length before # rest"
    using filter_rev_upt_last [of ?P "length before" "Suc (length ?s)", OF here _ later]
    by auto
  then show ?thesis by (simp add: LastIndex_def)
qed

lemma getSelectorAndAttr_no_bar:
  "CHR ''|'' \<notin> set input \<Longrightarrow> getSelectorAndAttr input = (input, [])"
  by (simp add: getSelectorAndAttr_def LastIndex_absent)

lemma getSelectorAndAttr_last_bar:
  assumes "CHR ''|'' \<notin> set attr"
  shows "getSelectorAndAttr (sel @ CHR ''|'' # attr) = (sel, attr)"
proof -
  have "LastIndex (sel @ ''|'' @ attr) ''|'' = int (length sel)"
    using assms by (rule LastIndex_last)
  moreover have "nat (int (length sel) + 1) = Suc (length sel)" by simp
  ultimately show ?thesis by (simp add: getSelectorAndAttr_def)
qed

text \<open>
  Claim C6. getSelectorAndAttr splits its input at the last \<open>|\<close>: without any \<open>|\<close>
  the whole input is the selector and the attribute is empty; an input that reads
  selector, \<open>|\<close>, attribute, with no \<open>|\<close> in the attribute, gives exactly these two
  parts, either of which may be empty. The four examples of the specification follow.
\<close>

theorem getSelectorAndAttr_splits_at_last_bar:
  "(CHR ''|'' \<notin> set input \<longrightarrow> getSelectorAndAttr input = (input, [])) \<and>
   (\<forall>sel attr. input = sel @ ''|'' @ attr \<and> CHR ''|'' \<notin> set attr \<longrightarrow>
      getSelectorAndAttr input = (sel, attr)) \<and>
   getSelectorAndAttr ''a img|src'' = (''a img'', ''src'') \<and>
   getSelectorAndAttr ''h3'' = (''h3'', []) \<and>
   getSelectorAndAttr ''|href'' = ([], ''href'') \<and>
   getSelectorAndAttr [] = ([], [])"
proof (intro conjI allI impI)
  show "getSelectorAndAttr ''a img|src'' = (''a img'', ''src'')"
    using getSelectorAndAttr_last_bar [of "''src''" "''a img''"] by simp
  show "getSelectorAndAttr ''|href'' = ([], ''href'')"
    using getSelectorAndAttr_last_bar [of "''href''" "[]"] by simp
qed (simp_all add: getSelectorAndAttr_no_bar getSelectorAndAttr_last_bar)

theorem getSelectorAndAttr_splits_at_last_bar_witness:
  "getSelectorAndAttr ''a[x|=y] b|href'' = (''a[x|=y] b'', ''href'') \<and>
   getSelectorAndAttr ''div p'' = (''div p'', [])"
  using getSelectorAndAttr_splits_at_last_bar [of "''a[x|=y] b|href''",
      THEN conjunct2, THEN conjunct1, rule_format, of "''a[x|=y] b''" "''href''"]
    getSelectorAndAttr_splits_at_last_bar [of "''div p''", THEN conjunct1]
  by simp


text \<open>
  The command-line variant finds the same two parts and trims each of them.
\<close>

lemma getSelectorAndAttr_cli_trims:
  "getSelectorAndAttr_cli input =
     (TrimSpace (fst (getSelectorAndAttr input)), TrimSpace (snd (getSelectorAndAttr input)))"
  by (simp add: getSelectorAndAttr_cli_def getSelectorAndAttr_def Let_def TrimSpace_def
      white_space_def)

lemma getSelectorAndAttr_cli_examples:
  "getSelectorAndAttr_cli ''a img|src'' = (''a img'', ''src'') \<and>
   getSelectorAndAttr_cli ''h3'' = (''h3'', []) \<and>
   getSelectorAndAttr_cli ''|href'' = ([], ''href'') \<and>
   getSelectorAndAttr_cli [] = ([], []) \<and>
   getSelectorAndAttr_cli '' a img | src '' = (''a img'', ''src'')"
  by (simp add: getSelectorAndAttr_cli_def LastIndex_def TrimSpace_def white_space_def
      leading_space_def)


section \<open>Validation\<close>

lemma validate_items_None_iff:
  "validate_items its = None \<longleftrightarrow> (\<forall>(k, v)\<in>set its. Selector v \<noteq> [] \<and> Fields v \<noteq> [])"
  by (induction its rule: validate_items.induct) auto

lemma scrape_rejects_before_visit:
  assumes "validate url_Parse (Some s) = Some err"
  shows "scrape url_Parse visit MarshalIndent \<lparr>Method = ''POST'', Decoded = Inr s\<rparr>
           = Returns (\<lparr>StatusCode = 400, Body = ErrorText err\<rparr>, [])"
  using assms by (simp add: scrape_def)

text \<open>
  What validate tests. It returns an error exactly when \<^verbatim>\<open>url.Parse\<close> reports one for
  the url of the request, or the items are empty, or some item has an empty selector, or
  some item has no fields. The handler answers such an error with status 400 and the
  error's text, whatever the collector would do: it is not asked. There is no test that the
  url is not empty.
\<close>

lemma validate_error_iff:
  "(validate url_Parse (Some s) \<noteq> None \<longleftrightarrow>
      url_Parse (Url s) \<noteq> None \<or> Items s = [] \<or>
      (\<exists>(k, v)\<in>set (Items s). Selector v = [] \<or> Fields v = [])) \<and>
   (\<forall>err. validate url_Parse (Some s) = Some err \<longrightarrow>
      (\<forall>visit MarshalIndent.
         scrape url_Parse visit MarshalIndent \<lparr>Method = ''POST'', Decoded = Inr s\<rparr>
           = Returns (\<lparr>StatusCode = 400, Body = ErrorText err\<rparr>, [])))"
proof (intro conjI allI impI)
  have "validate url_Parse (Some s) = None \<longleftrightarrow>
      url_Parse (Url s) = None \<and> Items s \<noteq> [] \<and>
      (\<forall>(k, v)\<in>set (Items s). Selector v \<noteq> [] \<and> Fields v \<noteq> [])"
    by (auto simp: validate_def validate_items_None_iff split: option.splits)
  then show "validate url_Parse (Some s) \<noteq> None \<longleftrightarrow>
      url_Parse (Url s) \<noteq> None \<or> Items s = [] \<or>
      (\<exists>(k, v)\<in>set (Items s). Selector v = [] \<or> Fields v = [])"
    by auto
next
  fix err visit MarshalIndent
  assume "validate url_Parse (Some s) = Some err"
  then show "scrape url_Parse visit MarshalIndent \<lparr>Method = ''POST'', Decoded = Inr s\<rparr>
           = Returns (\<lparr>StatusCode = 400, Body = ErrorText err\<rparr>, [])"
    by (rule scrape_rejects_before_visit)
qed

lemma validate_error_iff_examples:
  "validate url_Parse_ctl
     (Some \<lparr>Url = ''http://x'',
            Items = [(''a'', \<lparr>Selector = ''div'', Fields = [(''t'', FString ''h3'')]\<rparr>)]\<rparr>) = None \<and>
   validate url_Parse_ctl (Some \<lparr>Url = [], Items = []\<rparr>) \<noteq> None \<and>
   validate url_Parse_ctl
     (Some \<lparr>Url = ''http://x'',
            Items = [(''a'', \<lparr>Selector = [], Fields = [(''t'', FString ''h3'')]\<rparr>)]\<rparr>) \<noteq> None \<and>
   validate url_Parse_ctl
     (Some \<lparr>Url = ''http://x'', Items = [(''a'', \<lparr>Selector = ''div'', Fields = []\<rparr>)]\<rparr>) \<noteq> None"
  using
    validate_error_iff [of url_Parse_ctl
      "\<lparr>Url = ''http://x'',
        Items = [(''a'', \<lparr>Selector = ''div'', Fields = [(''t'', FString ''h3'')]\<rparr>)]\<rparr>"]
    validate_error_iff [of url_Parse_ctl "\<lparr>Url = [], Items = []\<rparr>"]
    validate_error_iff [of url_Parse_ctl
      "\<lparr>Url = ''http://x'',
        Items = [(''a'', \<lparr>Selector = [], Fields = [(''t'', FString ''h3'')]\<rparr>)]\<rparr>"]
    validate_error_iff [of url_Parse_ctl
      "\<lparr>Url = ''http://x'', Items = [(''a'', \<lparr>Selector = ''div'', Fields = []\<rparr>)]\<rparr>"]
  by (simp add: url_Parse_ctl_def)

text \<open>
  Claim C7 asks for an error when the url is empty. A request with the empty url, one
  item, a selector and a field passes validate, unlike a request without items. The handler
  goes on to the visit; colly refuses the empty URL without invoking a callback, the wait
  group stays at one, and the handler never answers.
\<close>

theorem validate_accepts_empty_url:
  "validate url_Parse_ctl
     (Some \<lparr>Url = [],
            Items = [(''a'', \<lparr>Selector = ''div'', Fields = [(''t'', FString ''h3'')]\<rparr>)]\<rparr>) = None \<and>
   scrape url_Parse_ctl (colly_Visit fetch) MarshalIndent
     \<lparr>Method = ''POST'',
      Decoded = Inr \<lparr>Url = [],
                        Items = [(''a'', \<lparr>Selector = ''div'',
                                         Fields = [(''t'', FString ''h3'')]\<rparr>)]\<rparr>\<rparr> = Hangs"
  by (simp add: validate_def url_Parse_ctl_def scrape_def scrape_results_def colly_Visit_def
      handleOnHTML_def scrape_wait_def wg_Done_def)

section \<open>Field extraction\<close>

subsection \<open>parseFields as a sequence of accumulations\<close>

lemma accumulate_Nil: "accumulate m [] = m"
  by (simp add: accumulate_def)

lemma accumulate_Cons: "accumulate m ((k, v) # calls) = accumulate (accumValue m k v) calls"
  by (simp add: accumulate_def)

lemma accumulate_append: "accumulate m (xs @ ys) = accumulate (accumulate m xs) ys"
  by (simp add: accumulate_def)

lemma fold_accumValue:
  "fold (\<lambda>val p. accumValue p key (f val)) xs m = accumulate m (map (Pair key) (map f xs))"
  by (induction xs arbitrary: m) (simp_all add: accumulate_Nil accumulate_Cons)

lemma parseFields_loop_eq:
  "parseFields_loop flds e (parsed, lg) =
     (accumulate parsed (field_calls contributions flds e),
      lg @ concat (map (\<lambda>(fieldName, field). field_log field e) flds))"
proof (induction flds arbitrary: parsed lg)
  case Nil
  show ?case by (simp add: field_calls_def accumulate_Nil)
next
  case (Cons p flds)
  obtain fieldName field where p: "p = (fieldName, field)" by (cases p)
  show ?case
  proof (cases field)
    case (FString x)
    obtain sel attr where sa: "getSelectorAndAttr x = (sel, attr)" by (cases "getSelectorAndAttr x")
    show ?thesis
      by (simp add: p FString sa Cons.IH field_calls_def contributions_def field_log_def
          accumulate_append accumulate_Cons accumulate_Nil fold_accumValue)
  next
    case (FMap nested)
    show ?thesis
      by (simp add: p FMap Cons.IH field_calls_def contributions_def field_log_def
          accumulate_append accumulate_Cons accumulate_Nil parseFields_def split: prod.split)
  next
    case (FOther t)
    show ?thesis
      by (simp add: p FOther Cons.IH field_calls_def contributions_def field_log_def
          accumulate_Nil)
  qed
qed

lemma parseFields_eq:
  "parseFields flds e =
     (accumulate Map.empty (field_calls contributions flds e),
      concat (map (\<lambda>(fieldName, field). field_log field e) flds))"
  by (simp add: parseFields_def parseFields_loop_eq)

lemma in_field_calls:
  "c \<in> set (field_calls contrib flds e) \<longleftrightarrow>
     (\<exists>field. (fst c, field) \<in> set flds \<and> snd c \<in> set (contrib field e))"
  by (cases c) (auto simp: field_calls_def)

lemma field_calls_absent:
  assumes "name \<notin> fst ` set flds"
  shows "filter (\<lambda>c. fst c = name) (field_calls contrib flds e) = []"
proof -
  have "\<And>c. c \<in> set (field_calls contrib flds e) \<Longrightarrow> fst c \<noteq> name"
    using assms by (metis in_field_calls fst_conv image_eqI)
  then show ?thesis by (auto simp: filter_empty_conv)
qed

lemma field_calls_filter:
  assumes "distinct (map fst flds)" and "(name, field) \<in> set flds"
  shows "map snd (filter (\<lambda>c. fst c = name) (field_calls contrib flds e)) = contrib field e"
  using assms
proof (induction flds)
  case Nil
  then show ?case by simp
next
  case (Cons p flds)
  obtain n f where p: "p = (n, f)" by (cases p)
  have here: "map snd (filter (\<lambda>c. fst c = name) (map (Pair n) (contrib f e)))
      = (if n = name then contrib f e else [])"
    by (simp add: comp_def)
  show ?case
  proof (cases "n = name")
    case True
    with Cons.prems p have f: "f = field"
      by (metis distinct.simps(2) fst_conv image_eqI list.simps(9) set_ConsD set_map snd_conv)
    have "name \<notin> fst ` set flds" using Cons.prems(1) p True by simp
    then have "filter (\<lambda>c. fst c = name) (field_calls contrib flds e) = []"
      by (rule field_calls_absent)
    then show ?thesis using here by (simp add: field_calls_def p True f)
  next
    case False
    with Cons.prems p have "(name, field) \<in> set flds" and "distinct (map fst flds)" by auto
    then have "map snd (filter (\<lambda>c. fst c = name) (field_calls contrib flds e)) = contrib field e"
      by (rule Cons.IH[rotated])
    then show ?thesis using here False by (simp add: field_calls_def p)
  qed
qed

lemma contributions_not_List: "\<forall>v\<in>set (contributions field e). \<not> is_List v"
  by (cases field) (auto simp: contributions_def split: prod.split)

lemma accumulate_field_calls:
  assumes "distinct (map fst flds)" and "(name, field) \<in> set flds"
    and "\<forall>v\<in>set (contrib field e). \<not> is_List v"
  shows "accumulate Map.empty (field_calls contrib flds e) name = promoted (contrib field e)"
proof -
  have calls: "map snd (filter (\<lambda>c. fst c = name) (field_calls contrib flds e)) = contrib field e"
    using assms(1,2) by (rule field_calls_filter)
  have "accumulate Map.empty (field_calls contrib flds e) name
      = promoted ([] @ map snd (filter (\<lambda>c. fst c = name) (field_calls contrib flds e)))"
  proof (rule accumulate_promoted)
    have "\<And>c. c \<in> set (filter (\<lambda>c. fst c = name) (field_calls contrib flds e)) \<Longrightarrow>
        \<not> is_List (snd c)"
      using assms(3) calls by (metis image_eqI set_map)
    then show "\<forall>c\<in>set (field_calls contrib flds e). fst c = name \<longrightarrow> \<not> is_List (snd c)"
      by auto
  qed simp_all
  then show ?thesis by (simp add: calls)
qed

lemma parseFields_field:
  assumes "distinct (map fst flds)" and "(name, field) \<in> set flds"
  shows "fst (parseFields flds e) name = promoted (contributions field e)"
proof -
  have calls: "map snd (filter (\<lambda>c. fst c = name) (field_calls contributions flds e))
      = contributions field e"
    using assms by (rule field_calls_filter)
  have "accumulate Map.empty (field_calls contributions flds e) name
      = promoted ([] @ map snd (filter (\<lambda>c. fst c = name) (field_calls contributions flds e)))"
  proof (rule accumulate_promoted)
    show "\<forall>c\<in>set (field_calls contributions flds e). fst c = name \<longrightarrow> \<not> is_List (snd c)"
      using contributions_not_List by (auto simp: in_field_calls)
  qed simp_all
  then show ?thesis by (simp add: parseFields_eq calls)
qed

lemma parseFields_no_field:
  assumes "name \<notin> fst ` set flds"
  shows "fst (parseFields flds e) name = None"
proof -
  have "accumulate Map.empty (field_calls contributions flds e) name
      = promoted ([] @ map snd (filter (\<lambda>c. fst c = name) (field_calls contributions flds e)))"
  proof (rule accumulate_promoted)
    show "\<forall>c\<in>set (field_calls contributions flds e). fst c = name \<longrightarrow> \<not> is_List (snd c)"
      using field_calls_absent [OF assms, of contributions e] by (simp add: filter_empty_conv)
  qed simp_all
  then show ?thesis by (simp add: parseFields_eq field_calls_absent [OF assms])
qed

lemma parseFields_loop_cli_eq:
  "parseFields_loop_cli flds e (parsed, lg) =
     (accumulate parsed (field_calls contributions_cli flds e),
      lg @ concat (map (\<lambda>(fieldName, field). field_log_cli field e) flds))"
proof (induction flds arbitrary: parsed lg)
  case Nil
  show ?case by (simp add: field_calls_def accumulate_Nil)
next
  case (Cons p flds)
  obtain fieldName field where p: "p = (fieldName, field)" by (cases p)
  show ?case
  proof (cases field)
    case (FString x)
    obtain sel attr where sa: "getSelectorAndAttr_cli x = (sel, attr)"
      by (cases "getSelectorAndAttr_cli x")
    show ?thesis
      by (simp add: p FString sa Cons.IH field_calls_def contributions_cli_def field_log_cli_def
          accumulate_append accumulate_Cons accumulate_Nil fold_accumValue ForEach_def)
  next
    case (FMap nested)
    show ?thesis
      by (simp add: p FMap Cons.IH field_calls_def contributions_cli_def field_log_cli_def
          accumulate_append accumulate_Cons accumulate_Nil parseFields_cli_def split: prod.split)
  next
    case (FOther t)
    show ?thesis
      by (simp add: p FOther Cons.IH field_calls_def contributions_cli_def field_log_cli_def
          accumulate_Nil)
  qed
qed

lemma parseFields_cli_eq:
  "parseFields_cli flds e =
     (accumulate Map.empty (field_calls contributions_cli flds e),
      concat (map (\<lambda>(fieldName, field). field_log_cli field e) flds))"
  by (simp add: parseFields_cli_def parseFields_loop_cli_eq)

lemma contributions_cli_not_List: "\<forall>v\<in>set (contributions_cli field e). \<not> is_List v"
  by (cases field) (auto simp: contributions_cli_def split: prod.split)

lemma parseFields_cli_field:
  assumes "distinct (map fst flds)" and "(name, field) \<in> set flds"
  shows "fst (parseFields_cli flds e) name = promoted (contributions_cli field e)"
  using accumulate_field_calls [OF assms, of contributions_cli e] contributions_cli_not_List
  by (simp add: parseFields_cli_eq)

subsection \<open>A selector without an attribute\<close>

text \<open>
  gluestick.go calls \<^verbatim>\<open>ChildText\<close> for such a field: whatever the number of matching
  descendants, none included, the field holds one string, the trimmed concatenation of
  their texts. The command-line variant accumulates the text of each matching descendant.
\<close>

lemma parseFields_selector_text:
  assumes "distinct (map fst flds)" and "(name, FString x) \<in> set flds"
    and "getSelectorAndAttr x = (sel, [])" and "sel \<noteq> []"
  shows "fst (parseFields flds e) name = Some (Scalar (ChildText e sel))"
  using parseFields_field [OF assms(1,2), of e] assms(3,4)
  by (simp add: contributions_def)

lemma parseFields_cli_selector_text:
  assumes "distinct (map fst flds)" and "(name, FString x) \<in> set flds"
    and "getSelectorAndAttr_cli x = (sel, [])" and "sel \<noteq> []"
  shows "fst (parseFields_cli flds e) name
           = promoted (map (\<lambda>child. Scalar (Text child)) (DOM_Find e sel))"
  using parseFields_cli_field [OF assms(1,2), of e] assms(3,4)
  by (simp add: contributions_cli_def)

text \<open>
  Claim C4 asks for one contribution per matching descendant. On an element with two
  \<^verbatim>\<open>h3\<close> descendants, \<open>First\<close> and \<open>Second\<close>, the field \<^verbatim>\<open>"title": "h3"\<close> of
  gluestick.go holds the single string \<open>FirstSecond\<close>; the command-line variant holds
  the list of the two texts, as the claim has it.
\<close>

theorem parseFields_selector_text_two_matches:
  "DOM_Find two_headings ''h3'' = [leaf ''First'' [], leaf ''Second'' []] \<and>
   fst (parseFields [(''title'', FString ''h3'')] two_headings) ''title''
     = Some (Scalar ''FirstSecond'') \<and>
   fst (parseFields_cli [(''title'', FString ''h3'')] two_headings) ''title''
     = Some (List [Scalar ''First'', Scalar ''Second''])"
  by (simp add: parseFields_def parseFields_cli_def two_headings_def leaf_def
      getSelectorAndAttr_def getSelectorAndAttr_cli_def LastIndex_def ChildText_def ForEach_def
      TrimSpace_def white_space_def leading_space_def accumValue_def)

subsection \<open>An attribute of the element itself\<close>

text \<open>
  Claim C5, as the program has it. A field whose expression has an empty selector and a
  non-empty attribute holds exactly one contribution per invocation: what \<^verbatim>\<open>Attr\<close>
  answers for the element. When the element does not have the attribute, that is the empty
  string, and the field is present with it.
\<close>

theorem parseFields_own_attribute:
  assumes "distinct (map fst flds)" and "(name, FString x) \<in> set flds"
    and "getSelectorAndAttr x = ([], attr)" and "attr \<noteq> []"
  shows "fst (parseFields flds e) name = Some (Scalar (Attr e attr)) \<and>
         (map_of (attributes e) attr = None \<longrightarrow> fst (parseFields flds e) name = Some (Scalar []))"
  using parseFields_field [OF assms(1,2), of e] assms(3,4)
  by (simp add: contributions_def Attr_def)

theorem parseFields_own_attribute_witness:
  "fst (parseFields [(''link'', FString ''|href''), (''title'', FString ''|title'')]
         (leaf ''text'' [(''href'', ''/a'')])) ''link'' = Some (Scalar ''/a'') \<and>
   fst (parseFields [(''link'', FString ''|href''), (''title'', FString ''|title'')]
         (leaf ''text'' [(''href'', ''/a'')])) ''title'' = Some (Scalar [])"
  using
    parseFields_own_attribute [of "[(''link'', FString ''|href''), (''title'', FString ''|title'')]"
      "''link''" "''|href''" "''href''" "leaf ''text'' [(''href'', ''/a'')]"]
    parseFields_own_attribute [of "[(''link'', FString ''|href''), (''title'', FString ''|title'')]"
      "''title''" "''|title''" "''title''" "leaf ''text'' [(''href'', ''/a'')]"]
  by (simp add: getSelectorAndAttr_def LastIndex_def leaf_def Attr_def)

text \<open>
  Claim C5, as the specification has it, lets the field be absent when the element lacks
  the attribute. On an element without attributes the field \<^verbatim>\<open>"link": "|href"\<close> is
  present and holds the empty string.
\<close>

theorem parseFields_missing_attribute_present:
  "map_of (attributes (leaf ''text'' [])) ''href'' = None \<and>
   fst (parseFields [(''link'', FString ''|href'')] (leaf ''text'' [])) ''link'' = Some (Scalar [])"
  by (simp add: parseFields_def leaf_def getSelectorAndAttr_def LastIndex_def Attr_def
      accumValue_def)

subsection \<open>A field that is neither a string nor a map\<close>

lemma filter_other_names:
  "name \<notin> fst ` set flds \<Longrightarrow> filter (\<lambda>p. fst p \<noteq> name) flds = flds"
  by (induction flds) auto

lemma field_calls_remove:
  assumes "distinct (map fst flds)" and "(name, field) \<in> set flds" and "contrib field e = []"
  shows "field_calls contrib (filter (\<lambda>p. fst p \<noteq> name) flds) e = field_calls contrib flds e"
  using assms(1,2)
proof (induction flds)
  case Nil
  then show ?case by simp
next
  case (Cons p flds)
  obtain n f where p: "p = (n, f)" by (cases p)
  show ?case
  proof (cases "n = name")
    case True
    with Cons.prems p have f: "f = field"
      by (metis distinct.simps(2) fst_conv image_eqI list.simps(9) set_ConsD set_map snd_conv)
    have "name \<notin> fst ` set flds" using Cons.prems(1) p True by simp
    then have "filter (\<lambda>p. fst p \<noteq> name) flds = flds" by (rule filter_other_names)
    then show ?thesis using assms(3) by (simp add: field_calls_def p True f)
  next
    case False
    with Cons.prems p have "(name, field) \<in> set flds" and "distinct (map fst flds)" by auto
    then have "field_calls contrib (filter (\<lambda>p. fst p \<noteq> name) flds) e = field_calls contrib flds e"
      by (rule Cons.IH[rotated])
    then show ?thesis using False by (simp add: field_calls_def p)
  qed
qed

lemma parseFields_log_other:
  assumes "(name, FOther t) \<in> set flds"
  shows "ExpectedStringOrMap (TypeOf t) \<in> set (snd (parseFields flds e))"
proof -
  have "ExpectedStringOrMap (TypeOf t) \<in> set (field_log (FOther t) e)"
    by (simp add: field_log_def)
  with assms show ?thesis
    by (force simp: parseFields_eq)
qed

text \<open>
  Claim C9. When a field definition is neither a string nor a map, parseFields writes the
  schema error to the log, the returned map has no entry for the field, and the returned
  map is the one the same invocation returns without that field: every other field is
  processed as before. parseFields returns in every case, so the callback that called it
  goes on to accumulate the object.
\<close>

theorem parseFields_skips_other_shapes:
  assumes "distinct (map fst flds)" and "(name, FOther t) \<in> set flds"
  shows "ExpectedStringOrMap (TypeOf t) \<in> set (snd (parseFields flds e)) \<and>
         fst (parseFields flds e) name = None \<and>
         fst (parseFields flds e) = fst (parseFields (filter (\<lambda>p. fst p \<noteq> name) flds) e)"
proof (intro conjI)
  show "ExpectedStringOrMap (TypeOf t) \<in> set (snd (parseFields flds e))"
    using assms(2) by (rule parseFields_log_other)
  show "fst (parseFields flds e) name = None"
    using parseFields_field [OF assms, of e] by (simp add: contributions_def)
  have "field_calls contributions (filter (\<lambda>p. fst p \<noteq> name) flds) e
      = field_calls contributions flds e"
    using assms by (rule field_calls_remove) (simp add: contributions_def)
  then show "fst (parseFields flds e) = fst (parseFields (filter (\<lambda>p. fst p \<noteq> name) flds) e)"
    by (simp add: parseFields_eq)
qed

theorem parseFields_skips_other_shapes_witness:
  "snd (parseFields [(''title'', FString []), (''count'', FOther JNumber),
                     (''image'', FMap [(''src'', FString ''|src''), (''w'', FOther JBool)])]
          (leaf ''text'' [(''src'', ''/i.png'')]))
     = [ExpectedStringOrMap ''float64'', ExpectedStringOrMap ''bool''] \<and>
   fst (parseFields [(''title'', FString []), (''count'', FOther JNumber),
                     (''image'', FMap [(''src'', FString ''|src''), (''w'', FOther JBool)])]
          (leaf ''text'' [(''src'', ''/i.png'')])) ''count'' = None \<and>
   fst (parseFields [(''title'', FString []), (''count'', FOther JNumber),
                     (''image'', FMap [(''src'', FString ''|src''), (''w'', FOther JBool)])]
          (leaf ''text'' [(''src'', ''/i.png'')]))
     = [''title'' \<mapsto> Scalar ''text'', ''image'' \<mapsto> Object [''src'' \<mapsto> Scalar ''/i.png'']]"
proof -
  let ?flds = "[(''title'', FString []), (''count'', FOther JNumber),
                (''image'', FMap [(''src'', FString ''|src''), (''w'', FOther JBool)])]"
  let ?e = "leaf ''text'' [(''src'', ''/i.png'')]"
  have d: "distinct (map fst ?flds)" by simp
  have m: "(''count'', FOther JNumber) \<in> set ?flds" by simp
  have rest: "parseFields (filter (\<lambda>p. fst p \<noteq> ''count'') ?flds) ?e
      = ([''title'' \<mapsto> Scalar ''text'', ''image'' \<mapsto> Object [''src'' \<mapsto> Scalar ''/i.png'']],
         [ExpectedStringOrMap ''bool''])"
    by (simp add: parseFields_def leaf_def getSelectorAndAttr_def LastIndex_def Attr_def
        accumValue_def)
  have lg: "snd (parseFields ?flds ?e) = [ExpectedStringOrMap ''float64'', ExpectedStringOrMap ''bool'']"
    by (simp add: parseFields_def leaf_def getSelectorAndAttr_def LastIndex_def Attr_def
        accumValue_def)
  show ?thesis
    using parseFields_skips_other_shapes [OF d m, of ?e] rest lg by simp
qed


section \<open>The scrape\<close>

subsection \<open>The callbacks as a sequence of accumulations\<close>

lemma handleOnHTML_accumulates:
  assumes cb: "\<And>h e results lg.
      callback h e (results, lg) = (accumValue results (hItemName h) (obj h e), lg @ lgf h e)"
    and "\<forall>c\<in>set calls. fst c < length hs"
  shows "fst (handleOnHTML callback hs calls (results, lg))
           = accumulate results (map (\<lambda>(i, e). (hItemName (hs ! i), obj (hs ! i) e)) calls)"
  using assms(2)
proof (induction calls arbitrary: results lg)
  case Nil
  show ?case by (simp add: handleOnHTML_def accumulate_Nil)
next
  case (Cons c calls)
  obtain i e where c: "c = (i, e)" by (cases c)
  have i: "i < length hs" using Cons.prems c by simp
  have rest: "\<forall>c\<in>set calls. fst c < length hs" using Cons.prems by simp
  have "handleOnHTML callback hs (c # calls) (results, lg)
      = handleOnHTML callback hs calls
          (accumValue results (hItemName (hs ! i)) (obj (hs ! i) e), lg @ lgf (hs ! i) e)"
    by (simp add: handleOnHTML_def c i cb)
  then show ?case
    using Cons.IH [OF rest] by (simp add: c accumulate_Cons)
qed

lemma OnHTML_callback_shape:
  "OnHTML_callback h e (results, lg)
     = (accumValue results (hItemName h) (Object (fst (parseFields (Fields (hItem h)) e))),
        lg @ snd (parseFields (Fields (hItem h)) e))"
  by (simp add: OnHTML_callback_def split: prod.split)

lemma OnHTML_callback_cli_shape:
  "OnHTML_callback_cli h e (results, lg)
     = (accumValue results (hItemName h) (Object (fst (parseFields_cli (Fields (hItem h)) e))),
        lg @ snd (parseFields_cli (Fields (hItem h)) e))"
  by (simp add: OnHTML_callback_cli_def split: prod.split)

lemma colly_fired_in_range:
  "fetch url = Inr doc \<Longrightarrow>
   \<forall>c\<in>set (fired (colly_Visit fetch url (map hSelector hs))). fst c < length hs"
  by (auto simp: colly_Visit_def)

lemma concat_map_nth:
  "concat (map (\<lambda>i. f (hs ! i)) [0..<length hs]) = concat (map f hs)"
proof -
  have "map f hs = map f (map ((!) hs) [0..<length hs])"
    by (simp only: map_nth)
  then have "map (\<lambda>i. f (hs ! i)) [0..<length hs] = map f hs"
    by (simp add: comp_def)
  then show ?thesis by simp
qed

lemma colly_calls:
  assumes "fetch url = Inr doc" and "url \<noteq> []"
  shows "map (\<lambda>(i, e). (hItemName (hs ! i), obj (hs ! i) e))
            (fired (colly_Visit fetch url (map hSelector hs)))
         = concat (map (\<lambda>h. map (\<lambda>e. (hItemName h, obj h e)) (DOM_Find doc (hSelector h))) hs)"
proof -
  have "map (\<lambda>(i, e). (hItemName (hs ! i), obj (hs ! i) e))
            (fired (colly_Visit fetch url (map hSelector hs)))
      = concat (map (\<lambda>i. map (\<lambda>e. (hItemName (hs ! i), obj (hs ! i) e))
                              (DOM_Find doc (map hSelector hs ! i))) [0..<length hs])"
    using assms by (simp add: colly_Visit_def map_concat comp_def)
  also have "\<dots> = concat (map (\<lambda>i. map (\<lambda>e. (hItemName (hs ! i), obj (hs ! i) e))
                              (DOM_Find doc (hSelector (hs ! i)))) [0..<length hs])"
    by (rule arg_cong [where f = concat], rule map_cong) simp_all
  also have "\<dots> = concat (map (\<lambda>h. map (\<lambda>e. (hItemName h, obj h e)) (DOM_Find doc (hSelector h))) hs)"
    by (rule concat_map_nth)
  finally show ?thesis .
qed

lemma register_cli_calls:
  "concat (map (\<lambda>h. map (\<lambda>e. (hItemName h, Object (fst (parse (Fields (hItem h)) e))))
                     (DOM_Find doc (hSelector h))) (register_OnHTML_cli its))
   = field_calls (item_contributions parse) its doc"
  by (simp add: register_OnHTML_cli_def field_calls_def item_contributions_def comp_def
      case_prod_unfold)

lemma item_contributions_not_List: "\<forall>v\<in>set (item_contributions parse it doc). \<not> is_List v"
  by (simp add: item_contributions_def)

subsection \<open>The command-line variant: every item under its own name\<close>

text \<open>
  With item names distinct, as the keys of a map are, the results of the command-line
  variant hold for each item what its own selector matched, extracted with its own fields:
  nothing for no match, the object for one match, the list of the objects in document order
  for more; and nothing under any other name.
\<close>

lemma scrape_cli_results:
  assumes "fetch (Url req) = Inr doc" and "Url req \<noteq> []"
  shows "scrape_cli (colly_Visit fetch) req
           = Returns (accumulate Map.empty
                        (field_calls (item_contributions parseFields_cli) (Items req) doc),
                      None)"
proof -
  let ?hs = "register_OnHTML_cli (Items req)"
  let ?v = "colly_Visit fetch (Url req) (map hSelector ?hs)"
  have "fst (handleOnHTML OnHTML_callback_cli ?hs (fired ?v) (Map.empty, []))
      = accumulate Map.empty
          (map (\<lambda>(i, e). (hItemName (?hs ! i), Object (fst (parseFields_cli (Fields (hItem (?hs ! i))) e))))
             (fired ?v))"
    using colly_fired_in_range [of fetch "Url req" doc ?hs] assms(1)
    by (intro handleOnHTML_accumulates [OF OnHTML_callback_cli_shape]) simp
  also have "\<dots> = accumulate Map.empty (field_calls (item_contributions parseFields_cli) (Items req) doc)"
    using colly_calls [of fetch "Url req" doc ?hs
        "\<lambda>h e. Object (fst (parseFields_cli (Fields (hItem h)) e))", OF assms]
    by (simp only: register_cli_calls)
  finally have results: "fst (handleOnHTML OnHTML_callback_cli ?hs (fired ?v) (Map.empty, []))
      = accumulate Map.empty (field_calls (item_contributions parseFields_cli) (Items req) doc)" .
  have "terminals ?v = [OnScraped]"
    using assms by (simp add: colly_Visit_def)
  then have "scrape_wait_cli (terminals ?v) = Returns None"
    by (simp add: scrape_wait_cli_def chan_receive_def)
  with results show ?thesis
    by (simp add: scrape_cli_def Let_def case_prod_unfold)
qed

lemma scrape_cli_item:
  assumes "fetch (Url req) = Inr doc" and "Url req \<noteq> []"
    and "distinct (map fst (Items req))" and "(name, it) \<in> set (Items req)"
  shows "\<exists>results. scrape_cli (colly_Visit fetch) req = Returns (results, None) \<and>
           results name = promoted (map (\<lambda>e. Object (fst (parseFields_cli (Fields it) e)))
                                       (DOM_Find doc (Selector it)))"
  using accumulate_field_calls [OF assms(3,4), of "item_contributions parseFields_cli" doc]
    item_contributions_not_List
  using scrape_cli_results [of fetch req doc] assms(1,2)
  by (simp add: item_contributions_def)

lemma scrape_cli_no_item:
  assumes "fetch (Url req) = Inr doc" and "Url req \<noteq> []"
    and "name \<notin> fst ` set (Items req)"
  shows "\<exists>results. scrape_cli (colly_Visit fetch) req = Returns (results, None) \<and>
           results name = None"
proof -
  let ?calls = "field_calls (item_contributions parseFields_cli) (Items req) doc"
  have none: "filter (\<lambda>c. fst c = name) ?calls = []"
    using assms(3) by (rule field_calls_absent)
  have "accumulate Map.empty ?calls name = promoted ([] @ map snd (filter (\<lambda>c. fst c = name) ?calls))"
  proof (rule accumulate_promoted)
    show "\<forall>c\<in>set ?calls. fst c = name \<longrightarrow> \<not> is_List (snd c)"
      using none by (simp add: filter_empty_conv)
  qed simp_all
  then show ?thesis
    using scrape_cli_results [of fetch req doc] assms(1,2) by (simp add: none)
qed

subsection \<open>gluestick.go: every callback under the name of the last item\<close>

text \<open>
  Every callback that gluestick.go registers reads the item the loop visited last. So the
  results have no key but that item's name, whatever the collector does.
\<close>

lemma register_OnHTML_last:
  "h \<in> set (register_OnHTML its) \<Longrightarrow> hItemName h = fst (last its) \<and> hItem h = snd (last its)"
  by (auto simp: register_OnHTML_def)

lemma handleOnHTML_other_key:
  assumes cb: "\<And>h e results lg.
      callback h e (results, lg) = (accumValue results (hItemName h) (obj h e), lg @ lgf h e)"
    and "\<forall>h\<in>set hs. hItemName h \<noteq> name"
  shows "fst (handleOnHTML callback hs calls (results, lg)) name = results name"
proof (induction calls arbitrary: results lg)
  case Nil
  show ?case by (simp add: handleOnHTML_def)
next
  case (Cons c calls)
  obtain i e where c: "c = (i, e)" by (cases c)
  show ?case
  proof (cases "i < length hs")
    case True
    then have "hItemName (hs ! i) \<noteq> name" using assms(2) by simp
    moreover have "handleOnHTML callback hs (c # calls) (results, lg)
      = handleOnHTML callback hs calls
          (accumValue results (hItemName (hs ! i)) (obj (hs ! i) e), lg @ lgf (hs ! i) e)"
      using True by (simp add: handleOnHTML_def c cb)
    ultimately show ?thesis
      using Cons.IH by (simp add: accumValue_other_key)
  next
    case False
    then have "handleOnHTML callback hs (c # calls) (results, lg)
      = handleOnHTML callback hs calls (results, lg)"
      by (simp add: handleOnHTML_def c)
    then show ?thesis using Cons.IH by simp
  qed
qed

lemma scrape_results_only_last_name:
  assumes "scrape_results visit scrapeReq = Returns (results, lg)"
    and "name \<noteq> fst (last (Items scrapeReq))"
  shows "results name = None"
proof -
  let ?hs = "register_OnHTML (Items scrapeReq)"
  let ?v = "visit (Url scrapeReq) (map hSelector ?hs)"
  let ?st = "handleOnHTML OnHTML_callback ?hs (fired ?v)
               (Map.empty, if requested ?v then [Scraping] else [])"
  have "\<forall>h\<in>set ?hs. hItemName h \<noteq> name"
    using assms(2) register_OnHTML_last by blast
  then have "fst ?st name = Map.empty name"
    by (rule handleOnHTML_other_key [OF OnHTML_callback_shape])
  moreover have "results = fst ?st"
    using assms(1)
    by (simp add: scrape_results_def Let_def case_prod_unfold split: Outcome.splits
        split del: if_split)
  ultimately show ?thesis by simp
qed

lemmas run_defs =
  scrape_results_def scrape_cli_def colly_Visit_def register_OnHTML_def register_OnHTML_cli_def
  handleOnHTML_def OnHTML_callback_def OnHTML_callback_cli_def parseFields_def
  parseFields_cli_def getSelectorAndAttr_def getSelectorAndAttr_cli_def LastIndex_def
  TrimSpace_def accumValue_def fetch_two_kinds_def two_kinds_def leaf_def articles_item_def
  notes_item_def scrape_wait_def wg_Done_def scrape_wait_cli_def chan_receive_def Let_def

text \<open>
  Claim C2 asks, for every item, for no key when its selector matched nothing, the bare
  object when it matched one element and the list when it matched more. Take a document
  with one \<^verbatim>\<open>article\<close> and one \<^verbatim>\<open>aside\<close> and a request with the items
  \<open>articles\<close> and \<open>notes\<close>, one for each. Each selector matches one element, yet
  the results of gluestick.go have no key for the item the loop visited first and a list of
  two objects for the other, in either order of the loop.
\<close>

theorem scrape_results_two_items:
  "scrape_results (colly_Visit fetch_two_kinds)
     \<lparr>Url = ''http://x'', Items = [(''articles'', articles_item), (''notes'', notes_item)]\<rparr>
     = Returns
         ([''notes'' \<mapsto> List [Object [''note'' \<mapsto> Scalar ''A''], Object [''note'' \<mapsto> Scalar ''N'']]],
          [Scraping, Finished]) \<and>
   scrape_results (colly_Visit fetch_two_kinds)
     \<lparr>Url = ''http://x'', Items = [(''notes'', notes_item), (''articles'', articles_item)]\<rparr>
     = Returns
         ([''articles'' \<mapsto> List [Object [''title'' \<mapsto> Scalar ''N''],
                                 Object [''title'' \<mapsto> Scalar ''A'']]],
          [Scraping, Finished])"
  by (simp add: run_defs)

text \<open>
  On the same document and request the command-line variant answers one bare object for
  each item.
\<close>

lemma scrape_cli_two_items:
  "scrape_cli (colly_Visit fetch_two_kinds)
     \<lparr>Url = ''http://x'', Items = [(''articles'', articles_item), (''notes'', notes_item)]\<rparr>
     = Returns
         ([''articles'' \<mapsto> Object [''title'' \<mapsto> Scalar ''A''],
           ''notes'' \<mapsto> Object [''note'' \<mapsto> Scalar ''N'']],
          None)"
  by (simp add: run_defs)

text \<open>
  Claim C3 asks that a match of an item's selector is extracted with that item's fields
  and accumulated under that item's name. For the same request, the callback that
  gluestick.go registers for the selector of \<open>articles\<close> carries the name and the
  fields of \<open>notes\<close>: run on the \<^verbatim>\<open>article\<close> element it accumulates an object with
  the field \<open>note\<close> under the key \<open>notes\<close>.
\<close>

theorem register_OnHTML_two_items:
  "register_OnHTML [(''articles'', articles_item), (''notes'', notes_item)]
     = [\<lparr>hSelector = ''article'', hItemName = ''notes'', hItem = notes_item\<rparr>,
        \<lparr>hSelector = ''aside'', hItemName = ''notes'', hItem = notes_item\<rparr>] \<and>
   OnHTML_callback (hd (register_OnHTML [(''articles'', articles_item), (''notes'', notes_item)]))
       (leaf ''A'' []) (Map.empty, [])
     = ([''notes'' \<mapsto> Object [''note'' \<mapsto> Scalar ''A'']], [])"
  by (simp add: register_OnHTML_def OnHTML_callback_def parseFields_def getSelectorAndAttr_def
      LastIndex_def accumValue_def leaf_def articles_item_def notes_item_def)

subsection \<open>A failed fetch\<close>



text \<open>
  When colly's fetch fails, no HTML callback has run and the results are the empty map.
\<close>

lemma scrape_results_colly_fetch_fails:
  assumes "fetch (Url scrapeReq) = Inl err" and "Url scrapeReq \<noteq> []"
  shows "scrape_results (colly_Visit fetch) scrapeReq
           = Returns (Map.empty, [Scraping, SomethingWentWrong err])"
  using assms
  by (simp add: scrape_results_def colly_Visit_def handleOnHTML_def scrape_wait_def wg_Done_def)

subsection \<open>The wait\<close>

text \<open>
  The wait of gluestick.go returns exactly when the run invoked one terminal callback. With
  none the counter stays at one and the wait never returns; a second callback takes the
  counter below zero and panics.
\<close>

lemma scrape_wait_cases:
  "scrape_wait ts lg =
     (case ts of
        [] \<Rightarrow> Hangs
      | [t] \<Rightarrow> Returns (lg @ [case t of OnScraped \<Rightarrow> Finished
                                | OnError err \<Rightarrow> SomethingWentWrong err])
      | t # t' # ts' \<Rightarrow> Panics)"
proof (cases ts)
  case Nil
  then show ?thesis by (simp add: scrape_wait_def)
next
  case (Cons t rest)
  then show ?thesis
    by (cases rest) (simp_all add: scrape_wait_def wg_Done_def)
qed

text \<open>
  The earliest variant has no error callback: a run that ends with an error alone never
  releases its wait. The command-line variant resumes with the error when the error
  callback is followed by the scraped callback, panics in the other order, and never
  resumes after no callback or after two errors.
\<close>

lemma scrape_wait_server_examples:
  "scrape_wait_server [OnScraped] = Returns () \<and>
   scrape_wait_server [OnError err] = Hangs \<and>
   scrape_wait_server [OnError err, OnScraped] = Returns () \<and>
   scrape_wait_server [OnScraped, OnScraped] = Panics \<and>
   scrape_wait_server [] = Hangs"
  by (simp add: scrape_wait_server_def wg_Done_def)

lemma scrape_wait_cli_examples:
  "scrape_wait_cli [OnScraped] = Returns None \<and>
   scrape_wait_cli [OnError err] = Returns (Some err) \<and>
   scrape_wait_cli [OnError err, OnScraped] = Returns (Some err) \<and>
   scrape_wait_cli [OnScraped, OnError err] = Panics \<and>
   scrape_wait_cli [OnError err, OnError err'] = Hangs \<and>
   scrape_wait_cli [] = Hangs"
  by (simp add: scrape_wait_cli_def chan_receive_def)

text \<open>
  Claim C8 asks that a second terminal signal is ignored and the caller resumes once. In
  gluestick.go both terminal callbacks call \<^verbatim>\<open>wg.Done()\<close> after a single
  \<^verbatim>\<open>wg.Add(1)\<close>: whenever a run invokes two terminal callbacks or more, in any order,
  the second call panics. So does the handler on a valid request when the collector
  invokes the error callback and then the scraped callback: it does not answer.
\<close>

theorem scrape_second_signal_panics:
  "scrape_wait (t # t' # ts) lg = Panics \<and>
   scrape url_Parse_ctl visit_error_then_scraped MarshalIndent_braces
     \<lparr>Method = ''POST'',
      Decoded = Inr \<lparr>Url = ''http://x'', Items = [(''articles'', articles_item)]\<rparr>\<rparr> = Panics"
  by (simp add: scrape_wait_def wg_Done_def scrape_def scrape_results_def validate_def
      url_Parse_ctl_def articles_item_def visit_error_then_scraped_def handleOnHTML_def)

end
